theory Spec2Isabelle
  imports Main "HOL-Library.Word"
begin

unbundle bit_operations_syntax

section \<open>Field codec: big-endian integers in byte buffers\<close>

type_synonym byte = "8 word"

text \<open>
  Modelled from the spec: the functions \<open>GetUInt16\<close>, ..., \<open>PutUInt32\<close> are declared in a
  header that is not among the sources. The spec: the field codec "reads/writes
  unsigned 8/16/24/32-bit big-endian integers at a caller-given offset into a
  caller-owned buffer. No bounds checking".

  A read pointer \<open>data\<close> with \<open>remain\<close> readable bytes behind it is the list of those
  bytes: \<open>data + k\<close> is \<open>drop k data\<close>, \<open>data[k]\<close> is \<open>data ! k\<close>. The callers compare the
  remaining size before they read.
\<close>

definition GetUInt16 :: "byte list \<Rightarrow> 16 word" where
  "GetUInt16 p = push_bit 8 (ucast (p ! 0)) OR ucast (p ! 1)"

definition GetUInt24 :: "byte list \<Rightarrow> 32 word" where
  "GetUInt24 p = push_bit 16 (ucast (p ! 0)) OR push_bit 8 (ucast (p ! 1)) OR ucast (p ! 2)"

definition GetUInt32 :: "byte list \<Rightarrow> 32 word" where
  "GetUInt32 p = push_bit 24 (ucast (p ! 0)) OR push_bit 16 (ucast (p ! 1))
                 OR push_bit 8 (ucast (p ! 2)) OR ucast (p ! 3)"

text \<open>The bytes the writers store, most significant first.\<close>

definition bytes16 :: "16 word \<Rightarrow> byte list" where
  "bytes16 v = [ucast (drop_bit 8 v), ucast v]"

definition bytes24 :: "32 word \<Rightarrow> byte list" where
  "bytes24 v = [ucast (drop_bit 16 v), ucast (drop_bit 8 v), ucast v]"

definition bytes32 :: "32 word \<Rightarrow> byte list" where
  "bytes32 v = [ucast (drop_bit 24 v), ucast (drop_bit 16 v), ucast (drop_bit 8 v), ucast v]"

text \<open>
  A write buffer is the list of all its bytes; \<open>memcpy (buf + off, bs)\<close> replaces the
  bytes at \<open>off\<close>. Writing past the end of the array is undefined in C++; the model
  leaves the buffer as long as it was and drops what does not fit.
\<close>

definition memcpy :: "nat \<Rightarrow> byte list \<Rightarrow> byte list \<Rightarrow> byte list" where
  "memcpy off bs buf = take (length buf) (take off buf @ bs @ drop (off + length bs) buf)"

definition PutUInt8 :: "nat \<Rightarrow> byte \<Rightarrow> byte list \<Rightarrow> byte list" where
  "PutUInt8 off v buf = memcpy off [v] buf"

definition PutUInt16 :: "nat \<Rightarrow> 16 word \<Rightarrow> byte list \<Rightarrow> byte list" where
  "PutUInt16 off v buf = memcpy off (bytes16 v) buf"

definition PutUInt24 :: "nat \<Rightarrow> 32 word \<Rightarrow> byte list \<Rightarrow> byte list" where
  "PutUInt24 off v buf = memcpy off (bytes24 v) buf"

definition PutUInt32 :: "nat \<Rightarrow> 32 word \<Rightarrow> byte list \<Rightarrow> byte list" where
  "PutUInt32 off v buf = memcpy off (bytes32 v) buf"


section \<open>Binary descriptors\<close>

text \<open>
  Modelled from the spec: the class \<open>Descriptor\<close> (tsDescriptor.cpp) is not among the
  sources. The spec gives the wire layout \<open>tag:u8, length:u8, payload:length bytes\<close>,
  a payload of at most 255 bytes, and validity only when the declared length matches
  the available payload. A binary descriptor is its byte block, or \<open>None\<close> when it is
  invalid.
\<close>

type_synonym Descriptor = "byte list option"

definition MAX_DESCRIPTOR_SIZE :: nat where
  "MAX_DESCRIPTOR_SIZE = 257"

definition Descriptor_of :: "byte list \<Rightarrow> Descriptor" where
  "Descriptor_of bs =
     (if 2 \<le> length bs \<and> length bs \<le> MAX_DESCRIPTOR_SIZE \<and> unat (bs ! 1) = length bs - 2
      then Some bs else None)"

definition isValid :: "Descriptor \<Rightarrow> bool" where
  "isValid d = (d \<noteq> None)"

definition tag :: "Descriptor \<Rightarrow> byte" where
  "tag d = (case d of Some bs \<Rightarrow> bs ! 0 | None \<Rightarrow> 0)"

definition payload :: "Descriptor \<Rightarrow> byte list" where
  "payload d = (case d of Some bs \<Rightarrow> drop 2 bs | None \<Rightarrow> [])"

definition payloadSize :: "Descriptor \<Rightarrow> nat" where
  "payloadSize d = length (payload d)"

text \<open>
  Modelled from the spec: \<open>AbstractDescriptor::serializeStart\<close> and \<open>serializeEnd\<close> are
  not among the sources. The spec: serialize "emits tag, a placeholder length byte,
  then fields"; "the length byte is patched after emission"; "if total size would
  exceed 257 bytes, additional data is silently truncated to fit".
\<close>

definition serializeStart :: "byte \<Rightarrow> byte list" where
  "serializeStart t = [t, 0]"

definition serializeEnd :: "byte \<Rightarrow> byte list \<Rightarrow> Descriptor" where
  "serializeEnd t bbp =
     (let bb = take MAX_DESCRIPTOR_SIZE bbp
      in Descriptor_of ((bb[0 := t])[1 := of_nat (length bb - 2)]))"


section \<open>ECM_repetition_rate_descriptor\<close>

record ECMRepetitionRateDescriptor =
  ecm_tag :: byte
  ecm_is_valid :: bool
  CA_system_id :: "16 word"
  ECM_repetition_rate :: "16 word"
  private_data :: "byte list"

text \<open>The default constructor; \<open>did\<close> is the descriptor tag \<open>MY_DID\<close>.\<close>

definition ECMRepetitionRateDescriptor_new :: "byte \<Rightarrow> ECMRepetitionRateDescriptor" where
  "ECMRepetitionRateDescriptor_new did =
     \<lparr>ecm_tag = did, ecm_is_valid = True, CA_system_id = 0, ECM_repetition_rate = 0,
      private_data = []\<rparr>"

definition ECM_serialize :: "ECMRepetitionRateDescriptor \<Rightarrow> Descriptor" where
  "ECM_serialize e =
     (let bbp = serializeStart (ecm_tag e);
          bbp = bbp @ bytes16 (CA_system_id e);
          bbp = bbp @ bytes16 (ECM_repetition_rate e);
          bbp = bbp @ private_data e
      in serializeEnd (ecm_tag e) bbp)"

text \<open>
  \<open>deserialize\<close> works on an existing object \<open>e\<close>: it clears the private data and sets
  the validity; the two integer fields are assigned only in the valid branch.
\<close>

definition ECM_deserialize ::
    "ECMRepetitionRateDescriptor \<Rightarrow> Descriptor \<Rightarrow> ECMRepetitionRateDescriptor" where
  "ECM_deserialize e desc =
     (let e = e\<lparr>private_data := []\<rparr>;
          data = payload desc;
          sz = payloadSize desc;
          e = e\<lparr>ecm_is_valid := (isValid desc \<and> tag desc = ecm_tag e \<and> 4 \<le> sz)\<rparr>
      in if ecm_is_valid e
         then e\<lparr>CA_system_id := GetUInt16 data,
                ECM_repetition_rate := GetUInt16 (drop 2 data),
                private_data := take (sz - 4) (drop 4 data)\<rparr>
         else e)"

text \<open>The constructor from a binary descriptor: default construction, then \<open>deserialize\<close>.\<close>

definition ECMRepetitionRateDescriptor_from ::
    "byte \<Rightarrow> Descriptor \<Rightarrow> ECMRepetitionRateDescriptor" where
  "ECMRepetitionRateDescriptor_from did desc =
     ECM_deserialize (ECMRepetitionRateDescriptor_new did) desc"


section \<open>AC-3 descriptor\<close>

text \<open>A \<open>Variable<uint8_t>\<close> is a byte that may be unset.\<close>

record AC3Descriptor =
  ac3_tag :: byte
  ac3_is_valid :: bool
  component_type :: "byte option"
  bsid :: "byte option"
  mainid :: "byte option"
  asvc :: "byte option"
  additional_info :: "byte list"

definition AC3Descriptor_new :: "byte \<Rightarrow> AC3Descriptor" where
  "AC3Descriptor_new did =
     \<lparr>ac3_tag = did, ac3_is_valid = True, component_type = None, bsid = None,
      mainid = None, asvc = None, additional_info = []\<rparr>"

definition is_set :: "byte option \<Rightarrow> bool" where
  "is_set v = (v \<noteq> None)"

definition appendVar :: "byte option \<Rightarrow> byte list \<Rightarrow> byte list" where
  "appendVar v bbp = (case v of Some x \<Rightarrow> bbp @ [x] | None \<Rightarrow> bbp)"

definition merge :: "AC3Descriptor \<Rightarrow> AC3Descriptor \<Rightarrow> AC3Descriptor" where
  "merge a other =
     (let a = (if \<not> is_set (component_type a) then a\<lparr>component_type := component_type other\<rparr> else a);
          a = (if \<not> is_set (bsid a) then a\<lparr>bsid := bsid other\<rparr> else a);
          a = (if \<not> is_set (mainid a) then a\<lparr>mainid := mainid other\<rparr> else a);
          a = (if \<not> is_set (asvc a) then a\<lparr>asvc := asvc other\<rparr> else a)
      in if additional_info a = [] then a\<lparr>additional_info := additional_info other\<rparr> else a)"

text \<open>
  \<open>serialize\<close> starts from a block of two bytes, appends the presence bitmask, the
  present fields and the additional data, then stores the tag and the length byte
  \<open>uint8_t (size - 2)\<close> and builds the binary descriptor from the block.
\<close>

definition AC3_serialize :: "AC3Descriptor \<Rightarrow> Descriptor" where
  "AC3_serialize a =
     (let bbp = [0, 0];
          bbp = bbp @ [(if is_set (component_type a) then 0x80 else 0x00) OR
                       (if is_set (bsid a) then 0x40 else 0x00) OR
                       (if is_set (mainid a) then 0x20 else 0x00) OR
                       (if is_set (asvc a) then 0x10 else 0x00)];
          bbp = appendVar (component_type a) bbp;
          bbp = appendVar (bsid a) bbp;
          bbp = appendVar (mainid a) bbp;
          bbp = appendVar (asvc a) bbp;
          bbp = bbp @ additional_info a;
          bbp = bbp[0 := ac3_tag a];
          bbp = bbp[1 := of_nat (length bbp - 2)]
      in Descriptor_of bbp)"

text \<open>One optional field of \<open>deserialize\<close>: read when its flag is set and a byte is left.\<close>

definition readVar :: "byte \<Rightarrow> byte \<Rightarrow> byte list \<Rightarrow> byte option \<times> byte list" where
  "readVar flags msk data =
     (if flags AND msk \<noteq> 0 \<and> 1 \<le> length data then (Some (data ! 0), drop 1 data)
      else (None, data))"

definition AC3_deserialize :: "AC3Descriptor \<Rightarrow> Descriptor \<Rightarrow> AC3Descriptor" where
  "AC3_deserialize a desc =
     (let a = a\<lparr>ac3_is_valid := (isValid desc \<and> tag desc = ac3_tag a \<and> 1 \<le> payloadSize desc)\<rparr>;
          a = a\<lparr>component_type := None, bsid := None, mainid := None, asvc := None,
                additional_info := []\<rparr>
      in if ac3_is_valid a
         then (let data = payload desc;
                   flags = data ! 0;
                   data = drop 1 data;
                   (c, data) = readVar flags 0x80 data;
                   (b, data) = readVar flags 0x40 data;
                   (m, data) = readVar flags 0x20 data;
                   (s, data) = readVar flags 0x10 data
               in a\<lparr>component_type := c, bsid := b, mainid := m, asvc := s,
                    additional_info := data\<rparr>)
         else a)"


section \<open>Descriptor lists\<close>

text \<open>
  Modelled from the spec: the class \<open>DescriptorList\<close> (tsDescriptorList.cpp) is not among
  the sources. A list holds the byte blocks of its descriptors, in order. The spec:
  serialization writes "as many descriptors as fit in remaining space, truncated only
  at a descriptor boundary (never mid-descriptor)"; a length-prefixed list is a
  16-bit field holding the reserved bits above the length, "followed by that many
  descriptor bytes"; reading a list splits the bytes by the wire layout
  \<open>tag:u8, length:u8, payload:length bytes\<close>.
\<close>

type_synonym DescriptorList = "byte list list"

text \<open>The write position of a serialization: the buffer, the offset \<open>data\<close>, the space left.\<close>

record wpos =
  w_payload :: "byte list"
  w_data :: nat
  w_remain :: nat

fun serialize_from :: "DescriptorList \<Rightarrow> 'a wpos_scheme \<Rightarrow> nat \<times> 'a wpos_scheme" where
  "serialize_from [] w = (0, w)"
| "serialize_from (d # ds) w =
     (if length d \<le> w_remain w
      then (let (n, w') = serialize_from ds
                            (w\<lparr>w_payload := memcpy (w_data w) d (w_payload w),
                               w_data := w_data w + length d,
                               w_remain := w_remain w - length d\<rparr>)
            in (Suc n, w'))
      else (0, w))"

text \<open>
  The loop of \<open>serialize_from\<close> in closed form: \<open>fits ds r\<close> is the number of leading
  descriptors of \<open>ds\<close> that \<open>r\<close> bytes hold, \<open>put_descs\<close> copies descriptors one behind
  the other.
\<close>

fun fits :: "DescriptorList \<Rightarrow> nat \<Rightarrow> nat" where
  "fits [] r = 0"
| "fits (d # ds) r = (if length d \<le> r then Suc (fits ds (r - length d)) else 0)"

fun put_descs :: "nat \<Rightarrow> DescriptorList \<Rightarrow> byte list \<Rightarrow> byte list" where
  "put_descs off [] p = p"
| "put_descs off (d # ds) p = put_descs (off + length d) ds (memcpy off d p)"

definition DescriptorList_serialize ::
    "DescriptorList \<Rightarrow> nat \<Rightarrow> 'a wpos_scheme \<Rightarrow> nat \<times> 'a wpos_scheme" where
  "DescriptorList_serialize dl start w =
     (let (n, w') = serialize_from (drop start dl) w in (start + n, w'))"

definition lengthSerialize ::
    "DescriptorList \<Rightarrow> nat \<Rightarrow> 16 word \<Rightarrow> nat \<Rightarrow> 'a wpos_scheme \<Rightarrow> nat \<times> 'a wpos_scheme" where
  "lengthSerialize dl start reserved_bits length_bits w =
     (let length_addr = w_data w;
          w = w\<lparr>w_data := w_data w + 2, w_remain := w_remain w - 2\<rparr>;
          (result, w) = DescriptorList_serialize dl start w;
          len = w_data w - length_addr - 2;
          w = w\<lparr>w_payload := PutUInt16 length_addr
                                (of_nat len OR push_bit length_bits reserved_bits) (w_payload w)\<rparr>
      in (result, w))"

function DescriptorList_add :: "DescriptorList \<Rightarrow> byte list \<Rightarrow> DescriptorList" where
  "DescriptorList_add dl data =
     (if 2 \<le> length data \<and> unat (data ! 1) + 2 \<le> length data
      then DescriptorList_add (dl @ [take (unat (data ! 1) + 2) data])
                              (drop (unat (data ! 1) + 2) data)
      else dl)"
  by pat_completeness auto
termination
  by (relation "measure (\<lambda>(dl, data). length data)") auto

declare DescriptorList_add.simps [simp del]


section \<open>Sections and binary tables\<close>

text \<open>
  Modelled from the spec: the classes \<open>Section\<close> and \<open>BinaryTable\<close> (tsSection.cpp,
  tsBinaryTable.cpp) are not among the sources. The spec: a section is
  \<open>{table_id, private_flag, table_id_extension, version, current_flag, section_number,
  last_section_number, payload}\<close>; a binary table is "a raw-section source exposing
  ordered sections"; "section numbers are assigned sequentially from 0" and the last
  section number is finalized once all sections exist.
\<close>

record Section =
  sec_tableId :: byte
  sec_isPrivateSection :: bool
  sec_tableIdExtension :: "16 word"
  sec_version :: byte
  sec_isCurrent :: bool
  sec_sectionNumber :: byte
  sec_lastSectionNumber :: byte
  sec_payload :: "byte list"

record BinaryTable =
  bt_isValid :: bool
  bt_tableId :: byte
  bt_sections :: "Section list"

definition BinaryTable_clear :: BinaryTable where
  "BinaryTable_clear = \<lparr>bt_isValid = False, bt_tableId = 0xFF, bt_sections = []\<rparr>"

definition BinaryTable_addSection :: "Section \<Rightarrow> BinaryTable \<Rightarrow> BinaryTable" where
  "BinaryTable_addSection sect table =
     \<lparr>bt_isValid = True,
      bt_tableId = sec_tableId sect,
      bt_sections = map (\<lambda>x. x\<lparr>sec_lastSectionNumber := sec_lastSectionNumber sect\<rparr>)
                        (bt_sections table @ [sect])\<rparr>"


section \<open>The virtual channel table\<close>

text \<open>
  Modelled from the spec: \<open>TID_CVCT\<close> is declared in a header that is not among the
  sources; it is the "discriminator identifying the specific owning-table variant",
  the table id of the cable form of the table.
\<close>

definition TID_CVCT :: byte where
  "TID_CVCT = 0xC9"

record Channel =
  short_name :: "16 word list"
  major_channel_number :: "16 word"
  minor_channel_number :: "16 word"
  modulation_mode :: byte
  carrier_frequency :: "32 word"
  channel_TSID :: "16 word"
  program_number :: "16 word"
  ETM_location :: byte
  access_controlled :: bool
  hidden :: bool
  hide_guide :: bool
  service_type :: byte
  source_id :: "16 word"
  path_select :: byte
  out_of_band :: bool
  ch_descs :: DescriptorList

definition Channel_new :: Channel where
  "Channel_new =
     \<lparr>short_name = [], major_channel_number = 0, minor_channel_number = 0,
      modulation_mode = 0, carrier_frequency = 0, channel_TSID = 0, program_number = 0,
      ETM_location = 0, access_controlled = False, hidden = False, hide_guide = False,
      service_type = 0, source_id = 0, path_select = 0, out_of_band = False,
      ch_descs = []\<rparr>"

record AbstractVCT =
  table_id :: byte
  is_valid :: bool
  version :: byte
  is_current :: bool
  protocol_version :: byte
  transport_stream_id :: "16 word"
  channels :: "Channel list"
  descs :: DescriptorList


subsection \<open>Deserialization\<close>

text \<open>The short name: at most 7 UTF-16 characters, up to the first padding zero.\<close>

definition read_short_name :: "byte list \<Rightarrow> 16 word list" where
  "read_short_name data =
     takeWhile (\<lambda>c. c \<noteq> 0) (map (\<lambda>i. GetUInt16 (drop (2 * i) data)) [0..<7])"

text \<open>The fixed fields of the channel at \<open>data\<close>, as the body of the channel loop assigns them.\<close>

definition read_channel :: "byte \<Rightarrow> byte list \<Rightarrow> Channel" where
  "read_channel tid data =
     (let num = GetUInt24 (drop 14 data);
          flags = data ! 26
      in Channel_new
           \<lparr>short_name := read_short_name data,
            major_channel_number := ucast (drop_bit 10 num AND 0x03FF),
            minor_channel_number := ucast (num AND 0x03FF),
            modulation_mode := data ! 17,
            carrier_frequency := GetUInt32 (drop 18 data),
            channel_TSID := GetUInt16 (drop 22 data),
            program_number := GetUInt16 (drop 24 data),
            ETM_location := drop_bit 6 flags AND 0x03,
            access_controlled := (flags AND 0x20 \<noteq> 0),
            hidden := (flags AND 0x10 \<noteq> 0),
            hide_guide := (flags AND 0x02 \<noteq> 0),
            service_type := data ! 27 AND 0x3F,
            source_id := GetUInt16 (drop 28 data),
            path_select := (if tid = TID_CVCT then drop_bit 3 flags AND 0x01 else 0),
            out_of_band := (if tid = TID_CVCT then flags AND 0x04 \<noteq> 0 else False)\<rparr>)"

text \<open>
  The loop on the channel definitions of one section: \<open>num_channels\<close> counts down, \<open>data\<close>
  is what remains of the payload, \<open>chs\<close> the channel list of the table. It returns the
  three when the loop stops.
\<close>

function read_channels ::
    "byte \<Rightarrow> byte \<Rightarrow> byte list \<Rightarrow> Channel list \<Rightarrow> Channel list \<times> byte \<times> byte list" where
  "read_channels tid num_channels data chs =
     (if 0 < num_channels \<and> 32 \<le> length data
      then (let ch = read_channel tid data;
                info_length = unat (GetUInt16 (drop 30 data) AND 0x0FFF);
                data' = drop 32 data;
                info_length = min info_length (length data');
                ch = ch\<lparr>ch_descs := DescriptorList_add (ch_descs ch) (take info_length data')\<rparr>
            in read_channels tid (num_channels - 1) (drop info_length data') (chs @ [ch]))
      else (chs, num_channels, data))"
  by pat_completeness auto
termination
  by (relation "measure (\<lambda>(tid, n, data, chs). length data)") auto

declare read_channels.simps [simp del]

text \<open>
  The body of the loop on the sections. Its result says whether the loop goes on; when
  it does not, \<open>deserialize\<close> returns at that point, and the table stays as it is there,
  \<open>is_valid\<close> still false.
\<close>

definition deserialize_section :: "AbstractVCT \<Rightarrow> Section \<Rightarrow> bool \<times> AbstractVCT" where
  "deserialize_section t sect =
     (let t = t\<lparr>version := sec_version sect,
                is_current := sec_isCurrent sect,
                transport_stream_id := sec_tableIdExtension sect\<rparr>;
          data = sec_payload sect
      in if length data < 2 then (False, t)
         else (let t = t\<lparr>protocol_version := data ! 0\<rparr>;
                   (chs, num_channels, data) =
                      read_channels (table_id t) (data ! 1) (drop 2 data) (channels t);
                   t = t\<lparr>channels := chs\<rparr>
               in if 0 < num_channels \<or> length data < 2 then (False, t)
                  else (let info_length = unat (GetUInt16 data AND 0x0FFF);
                            data = drop 2 data;
                            info_length = min info_length (length data);
                            t = t\<lparr>descs := DescriptorList_add (descs t) (take info_length data)\<rparr>
                        in (True, t))))"

text \<open>The loop on the sections; \<open>is_valid\<close> is set after the last one.\<close>

fun deserialize_sections :: "AbstractVCT \<Rightarrow> Section list \<Rightarrow> AbstractVCT" where
  "deserialize_sections t [] = t\<lparr>is_valid := True\<rparr>"
| "deserialize_sections t (sect # rest) =
     (let (continue, t) = deserialize_section t sect
      in if continue then deserialize_sections t rest else t)"

definition deserialize :: "AbstractVCT \<Rightarrow> BinaryTable \<Rightarrow> AbstractVCT" where
  "deserialize t table =
     (let t = t\<lparr>is_valid := False, protocol_version := 0, transport_stream_id := 0,
                descs := [], channels := []\<rparr>
      in if \<not> bt_isValid table \<or> bt_tableId table \<noteq> table_id t then t
         else deserialize_sections t (bt_sections table))"


subsection \<open>Serialization\<close>

text \<open>
  The local variables of \<open>serialize\<close>: the payload array with the write pointer \<open>data\<close>
  (an offset into it) and the space \<open>remain\<close>, the indexes of the next channel and of
  the next global descriptor, the counter of the section being built, the section
  number and the binary table. \<open>remain\<close> is a \<open>size_t\<close>; it is a natural number here,
  every subtraction of the source being covered by a comparison before it, except the
  first \<open>remain -= 2\<close> of a section, which needs an array of two bytes at least.
\<close>

record ser = wpos +
  s_channel_index :: nat
  s_next_desc :: nat
  s_num_channels :: byte
  s_section_number :: nat
  s_table :: BinaryTable

text \<open>The fixed fields of one channel, written at \<open>data\<close> (30 bytes).\<close>

definition put_channel :: "byte \<Rightarrow> Channel \<Rightarrow> nat \<Rightarrow> byte list \<Rightarrow> byte list" where
  "put_channel tid ch data p =
     (let p = fold (\<lambda>i. PutUInt16 (data + 2 * i)
                          (if i < length (short_name ch) then short_name ch ! i else 0))
                   [0..<7] p;
          p = PutUInt24 (data + 14)
                (0xF000 OR push_bit 10 (ucast (major_channel_number ch AND 0x03FF))
                        OR ucast (minor_channel_number ch AND 0x03FF)) p;
          p = PutUInt8 (data + 17) (modulation_mode ch) p;
          p = PutUInt32 (data + 18) (carrier_frequency ch) p;
          p = PutUInt16 (data + 22) (channel_TSID ch) p;
          p = PutUInt16 (data + 24) (program_number ch) p;
          p = PutUInt8 (data + 26)
                (ucast (push_bit 6 (ucast (ETM_location ch) :: 32 word) OR
                        (if access_controlled ch then 0x20 else 0x00) OR
                        (if hidden ch then 0x10 else 0x00) OR
                        (if tid \<noteq> TID_CVCT then 0x08
                         else push_bit 3 (ucast (path_select ch AND 0x01))) OR
                        (if tid \<noteq> TID_CVCT \<or> out_of_band ch then 0x04 else 0x00) OR
                        (if hide_guide ch then 0x02 else 0x00) OR
                        0x01)) p;
          p = PutUInt8 (data + 27) (0xC0 OR service_type ch) p;
          p = PutUInt16 (data + 28) (source_id ch) p
      in p)"

text \<open>
  One turn of the loop on channel definitions, entered with
  \<open>channel_index < channels.size() && remain >= 34\<close>. The result says whether the loop
  goes on (the channel is kept) or stops at the \<open>break\<close> (the channel is dropped).
\<close>

definition try_channel :: "AbstractVCT \<Rightarrow> ser \<Rightarrow> bool \<times> ser" where
  "try_channel t s =
     (let saved_data = w_data s;
          saved_remain = w_remain s;
          ch = channels t ! s_channel_index s;
          s1 = s\<lparr>w_payload := put_channel (table_id t) ch (w_data s) (w_payload s)\<rparr>;
          s1 = s1\<lparr>w_data := w_data s1 + 30, w_remain := w_remain s1 - 32\<rparr>;
          (next_index, s2) = lengthSerialize (ch_descs ch) 0 0x003F 10 s1;
          s2 = s2\<lparr>w_remain := w_remain s2 + 2\<rparr>
      in if s_num_channels s = 0 \<or> length (ch_descs ch) \<le> next_index
         then (True, s2\<lparr>s_num_channels := s_num_channels s2 + 1,
                        s_channel_index := s_channel_index s2 + 1\<rparr>)
         else (False, s2\<lparr>w_data := saved_data, w_remain := saved_remain\<rparr>))"


text \<open>Writing descriptors moves the write position only; the other locals stay.\<close>

lemma serialize_from_more:
  "serialize_from ds w = (n, w') \<Longrightarrow> wpos.more w' = wpos.more w"
proof (induction ds arbitrary: w n w')
  case Nil
  then show ?case by simp
next
  case (Cons d ds)
  show ?case
  proof (cases "length d \<le> w_remain w")
    case True
    obtain m v where r: "serialize_from ds
        (w\<lparr>w_payload := memcpy (w_data w) d (w_payload w), w_data := w_data w + length d,
           w_remain := w_remain w - length d\<rparr>) = (m, v)"
      by (cases "serialize_from ds
        (w\<lparr>w_payload := memcpy (w_data w) d (w_payload w), w_data := w_data w + length d,
           w_remain := w_remain w - length d\<rparr>)") auto
    from Cons.prems True r have "w' = v" by simp
    with Cons.IH [OF r] show ?thesis by simp
  next
    case False
    with Cons.prems show ?thesis by simp
  qed
qed

lemma lengthSerialize_more:
  "lengthSerialize dl start rb lb w = (n, w') \<Longrightarrow> wpos.more w' = wpos.more w"
  by (auto simp: lengthSerialize_def DescriptorList_serialize_def Let_def
      split: prod.splits dest: serialize_from_more)

lemma try_channel_kept_index:
  "try_channel t s = (True, s') \<Longrightarrow> s_channel_index s' = Suc (s_channel_index s)"
proof -
  assume a: "try_channel t s = (True, s')"
  let ?s1 = "s\<lparr>w_payload := put_channel (table_id t) (channels t ! s_channel_index s)
                               (w_data s) (w_payload s),
               w_data := w_data s + 30, w_remain := w_remain s - 32\<rparr>"
  obtain n s2 where r: "lengthSerialize (ch_descs (channels t ! s_channel_index s)) 0 0x003F 10 ?s1
      = (n, s2)"
    by (cases "lengthSerialize (ch_descs (channels t ! s_channel_index s)) 0 0x003F 10 ?s1") auto
  from lengthSerialize_more [OF r] have "s_channel_index s2 = s_channel_index s"
    by (cases s2, cases s) simp
  with a r show ?thesis
    by (auto simp: try_channel_def Let_def split: if_splits)
qed

text \<open>The loop on channel definitions of one section.\<close>

function channels_loop :: "AbstractVCT \<Rightarrow> ser \<Rightarrow> ser" where
  "channels_loop t s =
     (if s_channel_index s < length (channels t) \<and> 34 \<le> w_remain s
      then (let (kept, s') = try_channel t s
            in if kept then channels_loop t s' else s')
      else s)"
  by pat_completeness auto
termination
proof (relation "measure (\<lambda>(t, s). length (channels t) - s_channel_index s)")
  show "wf (measure (\<lambda>(t, s). length (channels t) - s_channel_index s))"
    by simp
next
  fix t s x kept s'
  assume g: "s_channel_index s < length (channels t) \<and> 34 \<le> w_remain s"
    and "x = try_channel t s" and "(kept, s') = x" and kept
  then have "try_channel t s = (True, s')" by simp
  then have "s_channel_index s' = Suc (s_channel_index s)"
    by (rule try_channel_kept_index)
  moreover from g have "s_channel_index s < length (channels t)" ..
  ultimately show "((t, s'), (t, s)) \<in> measure (\<lambda>(t, s). length (channels t) - s_channel_index s)"
    by auto
qed

declare channels_loop.simps [simp del]

text \<open>
  \<open>addSection\<close>: the bytes between \<open>payload\<close> and \<open>data\<close> become the payload of a new
  section of the table; the write position goes back to the start of the array.
\<close>

definition addSection :: "AbstractVCT \<Rightarrow> ser \<Rightarrow> ser" where
  "addSection t s =
     s\<lparr>s_table := BinaryTable_addSection
          \<lparr>sec_tableId = table_id t,
           sec_isPrivateSection = True,
           sec_tableIdExtension = transport_stream_id t,
           sec_version = version t,
           sec_isCurrent = is_current t,
           sec_sectionNumber = of_nat (s_section_number s),
           sec_lastSectionNumber = of_nat (s_section_number s),
           sec_payload = take (w_data s) (w_payload s)\<rparr> (s_table s),
       w_remain := w_remain s + w_data s,
       w_data := 0,
       s_section_number := s_section_number s + 1\<rparr>"

text \<open>
  The body of the loop on sections, in three parts: the fixed fields before the channel
  loop, the channel loop, and what follows it (the channel count, the global
  descriptors, the new section).
\<close>

definition begin_section :: "AbstractVCT \<Rightarrow> ser \<Rightarrow> ser" where
  "begin_section t s =
     (let s = s\<lparr>w_payload := PutUInt8 (w_data s) (protocol_version t) (w_payload s)\<rparr>;
          s = s\<lparr>s_num_channels := 0\<rparr>
      in s\<lparr>w_data := w_data s + 2, w_remain := w_remain s - 2\<rparr>)"

definition end_section :: "AbstractVCT \<Rightarrow> ser \<Rightarrow> ser" where
  "end_section t s =
     (let s = s\<lparr>w_payload := PutUInt16 1 (ucast (s_num_channels s)) (w_payload s)\<rparr>;
          (next_desc, s) = lengthSerialize (descs t) (s_next_desc s) 0x003F 10 s;
          s = s\<lparr>s_next_desc := next_desc\<rparr>
      in addSection t s)"

definition section_body :: "AbstractVCT \<Rightarrow> ser \<Rightarrow> ser" where
  "section_body t s = end_section t (channels_loop t (begin_section t s))"

text \<open>
  The loop on sections runs until one section exists and all channels and all global
  descriptors are serialized. Nothing in it bounds the number of turns: \<open>None\<close> is a loop
  that never ends.
\<close>

partial_function (option) sections_loop :: "AbstractVCT \<Rightarrow> ser \<Rightarrow> ser option" where
  "sections_loop t s =
     (if s_section_number s = 0 \<or> s_channel_index s < length (channels t)
         \<or> s_next_desc s < length (descs t)
      then sections_loop t (section_body t s)
      else Some s)"

declare sections_loop.simps [code]

text \<open>
  \<open>payload0\<close> is the local array \<open>payload\<close> as \<open>serialize\<close> finds it (it is not
  initialised); its length is \<open>MAX_PSI_LONG_SECTION_PAYLOAD_SIZE\<close>, a constant of a
  header that is not among the sources.
\<close>

definition serialize :: "byte list \<Rightarrow> AbstractVCT \<Rightarrow> BinaryTable option" where
  "serialize payload0 t =
     (if \<not> is_valid t then Some BinaryTable_clear
      else map_option s_table
             (sections_loop t
                \<lparr>w_payload = payload0, w_data = 0, w_remain = length payload0,
                 s_channel_index = 0, s_next_desc = 0, s_num_channels = 0,
                 s_section_number = 0, s_table = BinaryTable_clear\<rparr>))"


subsection \<open>XML deserialization\<close>

text \<open>
  Modelled from the spec: the class \<open>xml::Element\<close> is not among the sources; the spec
  describes "a textual attribute/element tree": an element has a name, attributes and
  child elements.
\<close>

datatype xml_Element =
  xml_Element (xml_name: string) (xml_attributes: "(string \<times> string) list")
    (xml_children: "xml_Element list")

text \<open>
  \<open>fromXML\<close> clears the two lists. The rest of its body is inside a comment in the
  source (the check of the element name, the attributes and the children), so nothing
  assigns \<open>_is_valid\<close> or any other field.
\<close>

definition fromXML :: "AbstractVCT \<Rightarrow> xml_Element \<Rightarrow> AbstractVCT" where
  "fromXML t element = t\<lparr>descs := [], channels := []\<rparr>"


subsection \<open>Sections that stop a deserialization\<close>

text \<open>
  A section is truncated when its payload is shorter than the two bytes of the fixed
  fields, or when the loop on its channel definitions stops with channels still to
  come: it declares more channels than its bytes hold.
\<close>

definition truncated :: "byte \<Rightarrow> Section \<Rightarrow> bool" where
  "truncated tid sect =
     (length (sec_payload sect) < 2 \<or>
      0 < fst (snd (read_channels tid (sec_payload sect ! 1) (drop 2 (sec_payload sect)) [])))"


subsection \<open>What serialization leaves in the count byte\<close>

text \<open>
  A section whose payload has 0 in its second byte, the byte \<open>deserialize\<close> reads as the
  number of channels; and the state of \<open>serialize\<close> at the start of a turn of the loop
  on sections, in an array of 4 bytes at least, all sections so far being such.
\<close>

definition count_byte_zero :: "Section \<Rightarrow> bool" where
  "count_byte_zero sect = (2 \<le> length (sec_payload sect) \<and> sec_payload sect ! 1 = 0)"

definition at_section_start :: "ser \<Rightarrow> bool" where
  "at_section_start s =
     (w_data s = 0 \<and> w_remain s = length (w_payload s) \<and> 4 \<le> length (w_payload s) \<and>
      list_all count_byte_zero (bt_sections (s_table s)))"


text \<open>
  A bound on the turns the loop on sections still has to make: the channels and the
  global descriptors to come, and one for the first section.
\<close>

definition turns_left :: "AbstractVCT \<Rightarrow> ser \<Rightarrow> nat" where
  "turns_left t s =
     (length (channels t) - s_channel_index s) + (length (descs t) - s_next_desc s)
     + (if s_section_number s = 0 then 1 else 0)"


section \<open>Example values\<close>

text \<open>The descriptor of the scenario: tag 0xD9, CA_system_id 0x0500, rate 500.\<close>

definition ecm_example :: ECMRepetitionRateDescriptor where
  "ecm_example =
     \<lparr>ecm_tag = 0xD9, ecm_is_valid = True, CA_system_id = 0x0500,
      ECM_repetition_rate = 500, private_data = []\<rparr>"

text \<open>An empty terrestrial table, as the receiver of a deserialization.\<close>

definition vct_empty :: AbstractVCT where
  "vct_empty =
     \<lparr>table_id = 0xC8, is_valid = True, version = 0, is_current = True,
      protocol_version = 0, transport_stream_id = 0, channels = [], descs = []\<rparr>"

text \<open>A section of table 0xC8 with a given version and payload.\<close>

definition section_of :: "byte \<Rightarrow> byte list \<Rightarrow> Section" where
  "section_of v p =
     \<lparr>sec_tableId = 0xC8, sec_isPrivateSection = True, sec_tableIdExtension = ucast v,
      sec_version = v, sec_isCurrent = True, sec_sectionNumber = 0,
      sec_lastSectionNumber = 0, sec_payload = p\<rparr>"

definition table_of :: "Section list \<Rightarrow> BinaryTable" where
  "table_of secs = \<lparr>bt_isValid = True, bt_tableId = 0xC8, bt_sections = secs\<rparr>"

text \<open>
  A payload with no channel and no global descriptor, and one with one channel (major
  and minor number 1, in the layout of the standard: reserved bits 1111, then 10 and 10
  bits), no channel descriptor and no global descriptor. Both write the 6 reserved
  bits of the two length fields as ones.
\<close>

definition payload_no_channel :: "byte list" where
  "payload_no_channel = [0, 0, 0xFC, 0x00]"

definition payload_one_channel :: "byte list" where
  "payload_one_channel =
     [0, 1] @ replicate 14 0 @ [0xF0, 0x04, 0x01] @ replicate 9 0 @ [0x0D, 0xC2, 0, 0]
     @ [0xFC, 0x00] @ [0xFC, 0x00]"

text \<open>A channel with major and minor number 1 and nothing else.\<close>

definition channel_1_1 :: Channel where
  "channel_1_1 = Channel_new\<lparr>major_channel_number := 1, minor_channel_number := 1\<rparr>"


text \<open>
  A table of two channels with two descriptors of 257 bytes each, and the state of
  \<open>serialize\<close> on it after the first channel of the first section, in an array of
  1012 bytes: 548 bytes written, 464 left.
\<close>

definition desc_257 :: "byte list" where
  "desc_257 = 0x80 # 0xFF # replicate 255 0"

definition channel_big :: Channel where
  "channel_big = channel_1_1\<lparr>ch_descs := [desc_257, desc_257]\<rparr>"

definition vct_two :: AbstractVCT where
  "vct_two = vct_empty\<lparr>channels := [channel_big, channel_big]\<rparr>"

definition state_second :: ser where
  "state_second =
     \<lparr>w_payload = replicate 1012 0, w_data = 548, w_remain = 464,
      s_channel_index = 1, s_next_desc = 0, s_num_channels = 1,
      s_section_number = 0, s_table = BinaryTable_clear\<rparr>"


section \<open>The descriptors\<close>

text \<open>
  C9. The ECM_repetition_rate descriptor with tag 0xD9, CA_system_id 0x0500, rate 500 and
  no private data serializes to the bytes D9 04 05 00 01 F4, and any object of that tag
  that deserializes these bytes becomes valid with these three field values.
\<close>

theorem ECM_scenario_bytes:
  "ECM_serialize ecm_example = Some [0xD9, 0x04, 0x05, 0x00, 0x01, 0xF4] \<and>
   ECM_deserialize (r\<lparr>ecm_tag := 0xD9\<rparr>) (Descriptor_of [0xD9, 0x04, 0x05, 0x00, 0x01, 0xF4])
     = \<lparr>ecm_tag = 0xD9, ecm_is_valid = True, CA_system_id = 0x0500,
        ECM_repetition_rate = 500, private_data = []\<rparr>"
proof
  show "ECM_serialize ecm_example = Some [0xD9, 0x04, 0x05, 0x00, 0x01, 0xF4]"
    by (simp add: ecm_example_def ECM_serialize_def serializeStart_def serializeEnd_def
        bytes16_def Descriptor_of_def MAX_DESCRIPTOR_SIZE_def Let_def)
  show "ECM_deserialize (r\<lparr>ecm_tag := 0xD9\<rparr>)
          (Descriptor_of [0xD9, 0x04, 0x05, 0x00, 0x01, 0xF4])
        = \<lparr>ecm_tag = 0xD9, ecm_is_valid = True, CA_system_id = 0x0500,
           ECM_repetition_rate = 500, private_data = []\<rparr>"
    by (cases r)
       (simp add: ECM_deserialize_def Descriptor_of_def MAX_DESCRIPTOR_SIZE_def Let_def
          isValid_def tag_def payload_def payloadSize_def GetUInt16_def)
qed

text \<open>
  C8. The AC-3 descriptor with no additional data, for each of the 16 combinations of
  its four optional fields and all their values: the payload of the serialization has
  1 byte plus 1 byte for each field that is set, and deserializing it into any object
  of the same tag gives a valid object with the same fields set to the same values.
\<close>

theorem AC3_presence_roundtrip:
  "payloadSize (AC3_serialize \<lparr>ac3_tag = t, ac3_is_valid = v, component_type = c, bsid = b,
      mainid = m, asvc = s, additional_info = []\<rparr>)
     = 1 + length (filter is_set [c, b, m, s]) \<and>
   AC3_deserialize (r\<lparr>ac3_tag := t\<rparr>)
     (AC3_serialize \<lparr>ac3_tag = t, ac3_is_valid = v, component_type = c, bsid = b,
        mainid = m, asvc = s, additional_info = []\<rparr>)
     = \<lparr>ac3_tag = t, ac3_is_valid = True, component_type = c, bsid = b,
        mainid = m, asvc = s, additional_info = []\<rparr>"
  by (cases c; cases b; cases m; cases s; cases r)
     (simp_all add: AC3_serialize_def AC3_deserialize_def readVar_def appendVar_def
        is_set_def Descriptor_of_def MAX_DESCRIPTOR_SIZE_def payloadSize_def payload_def
        Let_def isValid_def tag_def)

text \<open>
  The AC-3 descriptor resets every field before it looks at the validity: an input it
  rejects leaves all four optional fields unset and the additional data empty.
\<close>

lemma AC3_deserialize_invalid_resets:
  "\<not> ac3_is_valid (AC3_deserialize a desc) \<Longrightarrow>
   AC3_deserialize a desc
     = \<lparr>ac3_tag = ac3_tag a, ac3_is_valid = False, component_type = None, bsid = None,
        mainid = None, asvc = None, additional_info = []\<rparr>"
  by (cases a) (auto simp: AC3_deserialize_def Let_def split: if_splits prod.splits)

text \<open>
  C6. The ECM_repetition_rate object of the scenario deserializes the bytes D9 03 05 00 01
  (declared length 3, one byte short of the four bytes of the two integers): the object
  becomes invalid, but CA_system_id and ECM_repetition_rate keep the values they had;
  only the private data is cleared.
\<close>

theorem ECM_deserialize_short_keeps_fields:
  "ECM_deserialize ecm_example (Descriptor_of [0xD9, 0x03, 0x05, 0x00, 0x01])
     = \<lparr>ecm_tag = 0xD9, ecm_is_valid = False, CA_system_id = 0x0500,
        ECM_repetition_rate = 500, private_data = []\<rparr>"
  by (simp add: ecm_example_def ECM_deserialize_def Descriptor_of_def MAX_DESCRIPTOR_SIZE_def
      Let_def isValid_def tag_def payload_def payloadSize_def)


text \<open>
  The constructor from a binary descriptor starts from the default object, so there the
  two integers are 0 when the descriptor is rejected.
\<close>

lemma ECMRepetitionRateDescriptor_from_short:
  "ECMRepetitionRateDescriptor_from 0xD9 (Descriptor_of [0xD9, 0x03, 0x05, 0x00, 0x01])
     = \<lparr>ecm_tag = 0xD9, ecm_is_valid = False, CA_system_id = 0,
        ECM_repetition_rate = 0, private_data = []\<rparr>"
  by (simp add: ECMRepetitionRateDescriptor_from_def ECMRepetitionRateDescriptor_new_def
      ECM_deserialize_def Descriptor_of_def MAX_DESCRIPTOR_SIZE_def Let_def isValid_def
      tag_def payload_def payloadSize_def)


section \<open>The channel table: fields\<close>

text \<open>
  C4. The channel with major and minor number 1, serialized at the start of a buffer of
  32 bytes: the 24-bit field at offset 14 is 00 F4 01, so its 4 high bits are 0 and
  bits 15..12 are 1, and reading the channel back gives the major number 61.
\<close>

theorem put_channel_number_field:
  "take 3 (drop 14 (put_channel 0xC8 channel_1_1 0 (replicate 32 0))) = [0x00, 0xF4, 0x01] \<and>
   major_channel_number (read_channel 0xC8 (put_channel 0xC8 channel_1_1 0 (replicate 32 0)))
     = 61"
  by code_simp

theorem put_channel_number_field_witness:
  "major_channel_number (read_channel 0xC8 (put_channel 0xC8 channel_1_1 0 (replicate 32 0)))
     \<noteq> major_channel_number channel_1_1"
  using put_channel_number_field by (simp add: channel_1_1_def Channel_new_def)

text \<open>
  C3. A section with one channel that has no descriptor, followed by an empty global
  descriptor list, the 6 reserved bits of both length fields set: deserialization
  keeps 12 bits of the channel's length field (0xC00), takes the two bytes that are
  left for the channel's descriptors, and gives up for want of a global length field.
  The table is invalid and its channel holds the global length field as a descriptor.
\<close>

theorem deserialize_length_mask_12_bits:
  "\<not> is_valid (deserialize vct_empty (table_of [section_of 1 payload_one_channel])) \<and>
   map ch_descs (channels (deserialize vct_empty (table_of [section_of 1 payload_one_channel])))
     = [[[0xFC, 0x00]]]"
  by code_simp

theorem deserialize_length_mask_12_bits_witness:
  "\<not> is_valid (deserialize vct_empty (table_of [section_of 1 payload_one_channel]))"
  using deserialize_length_mask_12_bits by simp

text \<open>
  C10. \<open>fromXML\<close> leaves the validity as it was, whatever the element: a valid table
  stays valid, with no channel and no descriptor.
\<close>

theorem fromXML_keeps_validity:
  "is_valid (fromXML t element) = is_valid t \<and> channels (fromXML t element) = [] \<and>
   descs (fromXML t element) = [] \<and> version (fromXML t element) = version t \<and>
   transport_stream_id (fromXML t element) = transport_stream_id t"
  by (simp add: fromXML_def)


section \<open>The channel table: reassembly\<close>

text \<open>What the channel loop leaves (the count and the bytes) does not depend on the list it extends.\<close>

lemma read_channels_snd:
  "snd (read_channels tid n data chs) = snd (read_channels tid n data chs')"
proof (induction tid n data chs arbitrary: chs' rule: read_channels.induct)
  case (1 tid n data chs)
  show ?case
  proof (cases "0 < n \<and> 32 \<le> length data")
    case True
    from "1.IH" [OF True refl refl refl refl refl] True show ?thesis
      by (subst read_channels.simps, subst (2) read_channels.simps) (simp add: Let_def)
  next
    case False
    then show ?thesis
      by (auto simp: read_channels.simps [of tid n data chs]
          read_channels.simps [of tid n data chs'])
  qed
qed

lemma deserialize_section_fields:
  assumes "deserialize_section t sect = (ok, t')"
  shows "is_valid t' = is_valid t" "table_id t' = table_id t"
    "version t' = sec_version sect" "is_current t' = sec_isCurrent sect"
    "transport_stream_id t' = sec_tableIdExtension sect"
  using assms
  by (auto simp: deserialize_section_def Let_def split: if_splits prod.splits)

lemma truncated_stops:
  assumes "truncated (table_id t) sect"
  shows "fst (deserialize_section t sect) = False"
proof (cases "length (sec_payload sect) < 2")
  case True
  then show ?thesis by (simp add: deserialize_section_def Let_def)
next
  case False
  with assms have "0 < fst (snd (read_channels (table_id t) (sec_payload sect ! 1)
      (drop 2 (sec_payload sect)) (channels t)))"
    using read_channels_snd [of "table_id t" "sec_payload sect ! 1"
        "drop 2 (sec_payload sect)" "channels t" "[]"]
    by (simp add: truncated_def)
  then show ?thesis
    by (auto simp: deserialize_section_def Let_def split: prod.splits)
qed

lemma deserialize_sections_truncated:
  "\<not> is_valid t \<Longrightarrow> truncated (table_id t) sect \<Longrightarrow>
   \<not> is_valid (deserialize_sections t (pre @ sect # post)) \<and>
   deserialize_sections t (pre @ sect # post) = deserialize_sections t (pre @ [sect])"
proof (induction pre arbitrary: t)
  case Nil
  obtain ok t' where r: "deserialize_section t sect = (ok, t')"
    by (cases "deserialize_section t sect") auto
  with truncated_stops [OF Nil(2)] have "\<not> ok" by simp
  with r deserialize_section_fields(1) [OF r] Nil(1) show ?case by simp
next
  case (Cons x pre)
  obtain ok t' where r: "deserialize_section t x = (ok, t')"
    by (cases "deserialize_section t x") auto
  show ?case
  proof (cases ok)
    case True
    from deserialize_section_fields [OF r] Cons.prems
    have "\<not> is_valid t'" "truncated (table_id t') sect" by simp_all
    from Cons.IH [OF this] r True show ?thesis by auto
  next
    case False
    with r deserialize_section_fields(1) [OF r] Cons.prems show ?thesis by simp
  qed
qed

text \<open>
  C5. When a section of the binary table is truncated (a payload shorter than the two
  fixed bytes, or fewer channels than it declares), the deserialized table is not
  valid, and the result is the one of the table cut after that section: no section
  behind it is looked at.
\<close>

theorem deserialize_truncated_invalid:
  assumes "truncated (table_id t) sect"
  shows "\<not> is_valid (deserialize t (table\<lparr>bt_sections := pre @ sect # post\<rparr>)) \<and>
         deserialize t (table\<lparr>bt_sections := pre @ sect # post\<rparr>) =
         deserialize t (table\<lparr>bt_sections := pre @ [sect]\<rparr>)"
  using deserialize_sections_truncated
      [of "t\<lparr>is_valid := False, protocol_version := 0, transport_stream_id := 0,
             descs := [], channels := []\<rparr>" sect pre post] assms
  by (auto simp: deserialize_def Let_def)

theorem deserialize_truncated_invalid_witness:
  "truncated (table_id vct_empty) (section_of 2 [0, 1]) \<and>
   \<not> is_valid (deserialize vct_empty
        ((table_of [])\<lparr>bt_sections := [section_of 1 payload_no_channel]
            @ section_of 2 [0, 1] # [section_of 3 payload_no_channel]\<rparr>)) \<and>
   deserialize vct_empty
        ((table_of [])\<lparr>bt_sections := [section_of 1 payload_no_channel]
            @ section_of 2 [0, 1] # [section_of 3 payload_no_channel]\<rparr>) =
   deserialize vct_empty
        ((table_of [])\<lparr>bt_sections := [section_of 1 payload_no_channel]
            @ [section_of 2 [0, 1]]\<rparr>)"
proof -
  have h: "truncated (table_id vct_empty) (section_of 2 [0, 1])"
    by (simp add: truncated_def section_of_def read_channels.simps)
  from deserialize_truncated_invalid [OF h, where table = "table_of []"
      and pre = "[section_of 1 payload_no_channel]"
      and post = "[section_of 3 payload_no_channel]"] h
  show ?thesis by auto
qed

lemma deserialize_sections_last:
  "\<not> is_valid t \<Longrightarrow> secs \<noteq> [] \<Longrightarrow> is_valid (deserialize_sections t secs) \<Longrightarrow>
   version (deserialize_sections t secs) = sec_version (last secs) \<and>
   is_current (deserialize_sections t secs) = sec_isCurrent (last secs) \<and>
   transport_stream_id (deserialize_sections t secs) = sec_tableIdExtension (last secs)"
proof (induction secs arbitrary: t)
  case Nil
  then show ?case by simp
next
  case (Cons x secs)
  obtain ok t' where r: "deserialize_section t x = (ok, t')"
    by (cases "deserialize_section t x") auto
  note f = deserialize_section_fields [OF r]
  show ?case
  proof (cases ok)
    case False
    with r f Cons.prems show ?thesis by simp
  next
    case True
    show ?thesis
    proof (cases "secs = []")
      case True
      with \<open>ok\<close> r f show ?thesis by simp
    next
      case False
      from Cons.prems r \<open>ok\<close> have "is_valid (deserialize_sections t' secs)" by simp
      from Cons.IH [OF _ False this] f Cons.prems(1) r \<open>ok\<close> False show ?thesis by simp
    qed
  qed
qed

text \<open>
  C7. After a deserialization that ends valid, of a binary table with at least one
  section, the version, the current flag and the table id extension of the table are
  those of the last section, whatever the sections before it say.
\<close>

theorem deserialize_fields_of_last_section:
  assumes "is_valid (deserialize t table)" "bt_sections table \<noteq> []"
  shows "version (deserialize t table) = sec_version (last (bt_sections table)) \<and>
         is_current (deserialize t table) = sec_isCurrent (last (bt_sections table)) \<and>
         transport_stream_id (deserialize t table)
           = sec_tableIdExtension (last (bt_sections table))"
proof -
  let ?t = "t\<lparr>is_valid := False, protocol_version := 0, transport_stream_id := 0,
                descs := [], channels := []\<rparr>"
  from assms(1) have d: "deserialize t table = deserialize_sections ?t (bt_sections table)"
    by (auto simp: deserialize_def Let_def split: if_splits)
  with assms(1) have "is_valid (deserialize_sections ?t (bt_sections table))" by simp
  from deserialize_sections_last [OF _ assms(2) this] d show ?thesis by simp
qed

theorem deserialize_fields_of_last_section_witness:
  "is_valid (deserialize vct_empty
      (table_of [section_of 1 payload_no_channel, section_of 2 payload_no_channel])) \<and>
   version (deserialize vct_empty
      (table_of [section_of 1 payload_no_channel, section_of 2 payload_no_channel])) = 2 \<and>
   transport_stream_id (deserialize vct_empty
      (table_of [section_of 1 payload_no_channel, section_of 2 payload_no_channel])) = 2"
proof -
  let ?b = "table_of [section_of 1 payload_no_channel, section_of 2 payload_no_channel]"
  have h1: "is_valid (deserialize vct_empty ?b)"
    by code_simp
  have h2: "bt_sections ?b \<noteq> []"
    by (simp add: table_of_def)
  from deserialize_fields_of_last_section [OF h1 h2] h1 show ?thesis
    by (simp add: table_of_def section_of_def)
qed


section \<open>The channel table: serialization\<close>

lemma length_memcpy [simp]: "length (memcpy off bs buf) = length buf"
  by (simp add: memcpy_def)

lemma memcpy_in:
  "off + length bs \<le> length buf \<Longrightarrow>
   memcpy off bs buf = take off buf @ bs @ drop (off + length bs) buf"
  by (simp add: memcpy_def)

lemma take_memcpy_before: "k \<le> off \<Longrightarrow> take k (memcpy off bs buf) = take k buf"
  by (cases "off \<le> length buf") (simp_all add: memcpy_def min_def take_all)

lemma fits_le: "fits ds r \<le> length ds"
  by (induction ds arbitrary: r) auto

lemma fits_size: "length (concat (take (fits ds r) ds)) \<le> r"
proof (induction ds arbitrary: r)
  case Nil
  then show ?case by simp
next
  case (Cons d ds)
  from Cons.IH [of "r - length d"] show ?case by auto
qed

lemma fits_maximal: "fits ds r < length ds \<Longrightarrow> r < length (concat (take (Suc (fits ds r)) ds))"
proof (induction ds arbitrary: r)
  case Nil
  then show ?case by simp
next
  case (Cons d ds)
  show ?case
  proof (cases "length d \<le> r")
    case True
    with Cons.prems have "fits ds (r - length d) < length ds" by simp
    from Cons.IH [OF this] True show ?thesis by simp
  next
    case False
    then show ?thesis by simp
  qed
qed

lemma length_put_descs [simp]: "length (put_descs off ds p) = length p"
  by (induction ds arbitrary: off p) auto

lemma take_put_descs_before: "k \<le> off \<Longrightarrow> take k (put_descs off ds p) = take k p"
  by (induction ds arbitrary: off p) (auto simp: take_memcpy_before)

lemma put_descs_in:
  "off + length (concat ds) \<le> length p \<Longrightarrow>
   put_descs off ds p = memcpy off (concat ds) p"
proof (induction ds arbitrary: off p)
  case Nil
  then show ?case by (simp add: memcpy_def)
next
  case (Cons d ds)
  then have "put_descs (off + length d) ds (memcpy off d p)
     = memcpy (off + length d) (concat ds) (memcpy off d p)"
    by (simp add: add.assoc)
  also from Cons.prems have "\<dots> = memcpy off (d @ concat ds) p"
    by (simp add: memcpy_in add.assoc add.commute add.left_commute)
  finally show ?case by simp
qed

lemma serialize_from_eq:
  "serialize_from ds w =
     (fits ds (w_remain w),
      w\<lparr>w_payload := put_descs (w_data w) (take (fits ds (w_remain w)) ds) (w_payload w),
        w_data := w_data w + length (concat (take (fits ds (w_remain w)) ds)),
        w_remain := w_remain w - length (concat (take (fits ds (w_remain w)) ds))\<rparr>)"
  by (induction ds arbitrary: w) (simp_all add: add.assoc)

lemma lengthSerialize_eq:
  "lengthSerialize dl start rb lb w =
     (let n = fits (drop start dl) (w_remain w - 2);
          L = length (concat (take n (drop start dl)))
      in (start + n,
          w\<lparr>w_payload := PutUInt16 (w_data w) (of_nat L OR push_bit lb rb)
                            (put_descs (w_data w + 2) (take n (drop start dl)) (w_payload w)),
            w_data := w_data w + 2 + L,
            w_remain := w_remain w - 2 - L\<rparr>))"
  by (simp add: lengthSerialize_def DescriptorList_serialize_def serialize_from_eq Let_def)

lemma GetUInt16_bytes16: "GetUInt16 (bytes16 v @ rest) = v"
  unfolding GetUInt16_def bytes16_def
  by (rule bit_word_eqI) (auto simp: bit_simps)

lemma length_fold_PutUInt16 [simp]:
  "length (fold (\<lambda>i. PutUInt16 (f i) (g i)) xs p) = length p"
  by (induction xs arbitrary: p) (simp_all add: PutUInt16_def)

lemma length_put_channel [simp]: "length (put_channel tid ch data p) = length p"
  by (simp add: put_channel_def PutUInt8_def PutUInt16_def PutUInt24_def PutUInt32_def Let_def)

lemma try_channel_eq:
  "try_channel t s =
     (let ch = channels t ! s_channel_index s;
          n = fits (ch_descs ch) (w_remain s - 32 - 2);
          L = length (concat (take n (ch_descs ch)));
          p = PutUInt16 (w_data s + 30) (of_nat L OR 0xFC00)
                (put_descs (w_data s + 32) (take n (ch_descs ch))
                   (put_channel (table_id t) ch (w_data s) (w_payload s)))
      in if s_num_channels s = 0 \<or> length (ch_descs ch) \<le> n
         then (True, s\<lparr>w_payload := p, w_data := w_data s + 32 + L,
                        w_remain := w_remain s - 32 - 2 - L + 2,
                        s_num_channels := s_num_channels s + 1,
                        s_channel_index := s_channel_index s + 1\<rparr>)
         else (False, s\<lparr>w_payload := p\<rparr>))"
  by (simp add: try_channel_def lengthSerialize_eq Let_def ac_simps)

lemma drop_memcpy_after:
  "off + length bs \<le> k \<Longrightarrow> k \<le> length buf \<Longrightarrow> drop k (memcpy off bs buf) = drop k buf"
  by (simp add: memcpy_in)

lemma drop_memcpy_at:
  "off + length bs \<le> length buf \<Longrightarrow> drop off (memcpy off bs buf) = bs @ drop (off + length bs) buf"
  by (simp add: memcpy_in)

lemma channel_bytes:
  assumes "d + 32 + length (concat D) \<le> length q"
  shows "take (length (concat D))
           (drop (d + 32) (PutUInt16 (d + 30) v (put_descs (d + 32) D q))) = concat D"
    and "GetUInt16 (drop (d + 30) (PutUInt16 (d + 30) v (put_descs (d + 32) D q))) = v"
proof -
  let ?q = "put_descs (d + 32) D q"
  let ?p = "PutUInt16 (d + 30) v ?q"
  from assms have q: "?q = memcpy (d + 32) (concat D) q"
    by (simp add: put_descs_in)
  have "drop (d + 32) ?p = drop (d + 32) ?q"
    unfolding PutUInt16_def using assms
    by (intro drop_memcpy_after) (simp_all add: bytes16_def)
  also have "\<dots> = concat D @ drop (d + 32 + length (concat D)) q"
    unfolding q using assms by (simp add: drop_memcpy_at)
  finally show "take (length (concat D)) (drop (d + 32) ?p) = concat D" by simp
  have "drop (d + 30) ?p = bytes16 v @ drop (d + 30 + length (bytes16 v)) ?q"
    unfolding PutUInt16_def using assms
    by (intro drop_memcpy_at) (simp add: bytes16_def)
  then show "GetUInt16 (drop (d + 30) ?p) = v"
    by (simp add: GetUInt16_bytes16)
qed

lemma end_section_facts:
  assumes "2 \<le> w_remain s"
  shows "s_channel_index (end_section t s) = s_channel_index s"
    and "w_data (end_section t s) = 0"
    and "w_remain (end_section t s) = w_data s + w_remain s"
    and "length (w_payload (end_section t s)) = length (w_payload s)"
    and "length (bt_sections (s_table (end_section t s))) = Suc (length (bt_sections (s_table s)))"
proof -
  let ?n = "fits (drop (s_next_desc s) (descs t)) (w_remain s - 2)"
  have "length (concat (take ?n (drop (s_next_desc s) (descs t)))) \<le> w_remain s - 2"
    by (rule fits_size)
  with assms show "s_channel_index (end_section t s) = s_channel_index s"
    and "w_data (end_section t s) = 0"
    and "w_remain (end_section t s) = w_data s + w_remain s"
    and "length (w_payload (end_section t s)) = length (w_payload s)"
    and "length (bt_sections (s_table (end_section t s))) = Suc (length (bt_sections (s_table s)))"
    by (simp_all add: end_section_def lengthSerialize_eq addSection_def Let_def
        BinaryTable_addSection_def PutUInt16_def)
qed

lemma begin_section_facts:
  shows "s_channel_index (begin_section t s) = s_channel_index s"
    and "s_num_channels (begin_section t s) = 0"
    and "w_data (begin_section t s) = w_data s + 2"
    and "w_remain (begin_section t s) = w_remain s - 2"
    and "length (w_payload (begin_section t s)) = length (w_payload s)"
  by (simp_all add: begin_section_def Let_def PutUInt8_def)


lemma try_channel_first:
  assumes "s_num_channels s = 0"
  shows "fst (try_channel t s)"
    and "s_channel_index (snd (try_channel t s)) = s_channel_index s + 1"
    and "s_num_channels (snd (try_channel t s)) = 1"
  using assms by (simp_all add: try_channel_eq Let_def)

lemma channels_loop_kept:
  assumes "s_channel_index s < length (channels t)" "34 \<le> w_remain s" "fst (try_channel t s)"
  shows "channels_loop t s = channels_loop t (snd (try_channel t s))"
  using assms by (subst channels_loop.simps) (simp add: split_beta)

lemma channels_loop_dropped:
  assumes "s_channel_index s < length (channels t)" "34 \<le> w_remain s" "\<not> fst (try_channel t s)"
  shows "channels_loop t s = snd (try_channel t s)"
  using assms by (subst channels_loop.simps) (simp add: split_beta)

lemma sections_loop_pending:
  assumes "s_channel_index s < length (channels t)"
  shows "sections_loop t s = sections_loop t (end_section t (channels_loop t (begin_section t s)))"
  using assms by (subst sections_loop.simps) (simp add: section_body_def)

text \<open>
  C2. One turn of the channel loop of a section, for a state in which the loop is
  entered (a channel is left and at least 34 bytes remain) and \<open>remain\<close> is the space
  behind \<open>data\<close> in an array of at least 36 bytes. Let \<open>n\<close> be the number of leading
  descriptors of the channel that fit in the space left after the 32 fixed bytes and
  the 2 bytes kept for the end of the section. If the channel count of the section is
  0, or if all descriptors fit, the channel is kept: the indexes advance and exactly the
  first \<open>n\<close> descriptors are written behind the fixed bytes, their size in the 10-bit
  length field. Otherwise the channel is dropped: \<open>data\<close> and \<open>remain\<close> are back to
  their values before the channel, the channel loop ends there, the section is added
  to the table, the loop on sections goes on, and the first turn of the channel loop
  of the next section keeps this same channel.
\<close>

theorem serialize_acceptance_rule:
  assumes ci: "s_channel_index s < length (channels t)"
    and rem: "34 \<le> w_remain s"
    and inv: "w_data s + w_remain s = length (w_payload s)"
    and cap: "36 \<le> length (w_payload s)"
  shows "let ds = ch_descs (channels t ! s_channel_index s);
             (kept, s') = try_channel t s
         in \<exists>n\<le>length ds.
              length (concat (take n ds)) + 34 \<le> w_remain s \<and>
              (n < length ds \<longrightarrow> w_remain s < length (concat (take (Suc n) ds)) + 34) \<and>
              (if s_num_channels s = 0 \<or> n = length ds
               then kept \<and>
                    s_channel_index s' = s_channel_index s + 1 \<and>
                    s_num_channels s' = s_num_channels s + 1 \<and>
                    w_data s' = w_data s + 32 + length (concat (take n ds)) \<and>
                    w_remain s' = w_remain s - 32 - length (concat (take n ds)) \<and>
                    take (length (concat (take n ds))) (drop (w_data s + 32) (w_payload s'))
                      = concat (take n ds) \<and>
                    GetUInt16 (drop (w_data s + 30) (w_payload s'))
                      = of_nat (length (concat (take n ds))) OR 0xFC00
               else \<not> kept \<and>
                    w_data s' = w_data s \<and> w_remain s' = w_remain s \<and>
                    s_channel_index s' = s_channel_index s \<and>
                    s_num_channels s' = s_num_channels s \<and>
                    channels_loop t s = s' \<and>
                    (let closed = end_section t s';
                         next = begin_section t closed
                     in length (bt_sections (s_table closed))
                          = Suc (length (bt_sections (s_table s))) \<and>
                        sections_loop t closed
                          = sections_loop t (end_section t (channels_loop t next)) \<and>
                        s_channel_index next = s_channel_index s \<and>
                        s_num_channels next = 0 \<and>
                        fst (try_channel t next) \<and>
                        s_channel_index (snd (try_channel t next)) = s_channel_index s + 1 \<and>
                        channels_loop t next = channels_loop t (snd (try_channel t next))))"
proof -
  define ds where "ds = ch_descs (channels t ! s_channel_index s)"
  define n where "n = fits ds (w_remain s - 34)"
  define L where "L = length (concat (take n ds))"
  define p where "p = PutUInt16 (w_data s + 30) (of_nat L OR 0xFC00)
      (put_descs (w_data s + 32) (take n ds)
         (put_channel (table_id t) (channels t ! s_channel_index s) (w_data s) (w_payload s)))"
  have n_le: "n \<le> length ds"
    unfolding n_def by (rule fits_le)
  have "L \<le> w_remain s - 34"
    unfolding L_def n_def by (rule fits_size)
  with rem have L_le: "L + 34 \<le> w_remain s" by simp
  have n_max: "w_remain s < length (concat (take (Suc n) ds)) + 34" if "n < length ds"
    using fits_maximal [of ds "w_remain s - 34"] that rem unfolding n_def by simp
  have tc: "try_channel t s =
      (if s_num_channels s = 0 \<or> length ds \<le> n
       then (True, s\<lparr>w_payload := p, w_data := w_data s + 32 + L,
                      w_remain := w_remain s - 32 - 2 - L + 2,
                      s_num_channels := s_num_channels s + 1,
                      s_channel_index := s_channel_index s + 1\<rparr>)
       else (False, s\<lparr>w_payload := p\<rparr>))"
    by (simp add: try_channel_eq Let_def p_def L_def n_def ds_def)
  have len_p: "length p = length (w_payload s)"
    by (simp add: p_def PutUInt16_def)
  have kept_case: ?thesis if k: "s_num_channels s = 0 \<or> n = length ds"
  proof -
    from inv L_le have fit: "w_data s + 32 + length (concat (take n ds))
        \<le> length (put_channel (table_id t) (channels t ! s_channel_index s) (w_data s) (w_payload s))"
      by (simp add: L_def)
    note cb = channel_bytes [OF fit, of "of_nat L OR 0xFC00"]
    from k n_le have c: "s_num_channels s = 0 \<or> length ds \<le> n" by auto
    have "take L (drop (w_data s + 32) p) = concat (take n ds)"
      using cb(1) by (simp add: p_def L_def)
    moreover have "GetUInt16 (drop (w_data s + 30) p) = of_nat L OR 0xFC00"
      using cb(2) by (simp add: p_def)
    moreover from L_le have "w_remain s - 32 - 2 - L + 2 = w_remain s - 32 - L" by simp
    moreover from c have "try_channel t s =
        (True, s\<lparr>w_payload := p, w_data := w_data s + 32 + L,
                      w_remain := w_remain s - 32 - 2 - L + 2,
                      s_num_channels := s_num_channels s + 1,
                      s_channel_index := s_channel_index s + 1\<rparr>)"
      by (simp add: tc)
    ultimately show ?thesis
      using k n_le L_le n_max
      unfolding Let_def ds_def [symmetric]
      by (simp only: prod.case) (intro exI [of _ n], simp add: L_def [symmetric])
  qed
  have dropped_case: ?thesis if k: "\<not> (s_num_channels s = 0 \<or> n = length ds)"
  proof -
    from k n_le have c: "\<not> (s_num_channels s = 0 \<or> length ds \<le> n)" by auto
    let ?s' = "s\<lparr>w_payload := p\<rparr>"
    from c have r: "try_channel t s = (False, ?s')" by (simp add: tc)
    from r ci rem have cl: "channels_loop t s = ?s'"
      using channels_loop_dropped [of s t] by simp
    let ?closed = "end_section t ?s'"
    let ?next = "begin_section t ?closed"
    from rem have r2: "2 \<le> w_remain ?s'" by simp
    note e = end_section_facts [OF r2, of t]
    note b = begin_section_facts [of t ?closed]
    from e ci have pend: "s_channel_index ?closed < length (channels t)" by simp
    from b e inv cap len_p have g: "34 \<le> w_remain ?next" by simp
    from b e have i: "s_channel_index ?next = s_channel_index s" by simp
    from b have z: "s_num_channels ?next = 0" by simp
    note f = try_channel_first [OF z, of t]
    from i ci g f(1) have cont: "channels_loop t ?next = channels_loop t (snd (try_channel t ?next))"
      by (intro channels_loop_kept) simp_all
    from e(5) have secs: "length (bt_sections (s_table ?closed)) = Suc (length (bt_sections (s_table s)))"
      by simp
    show ?thesis
      using r k n_le L_le n_max cl secs sections_loop_pending [OF pend] i z f(1) f(2) cont
      unfolding Let_def ds_def [symmetric]
      by (simp only: prod.case) (intro exI [of _ n], simp add: L_def [symmetric])
  qed
  from kept_case dropped_case show ?thesis by blast
qed


theorem serialize_acceptance_rule_witness:
  "s_channel_index state_second < length (channels vct_two) \<and>
   34 \<le> w_remain state_second \<and>
   w_data state_second + w_remain state_second = length (w_payload state_second) \<and>
   36 \<le> length (w_payload state_second) \<and>
   \<not> fst (try_channel vct_two state_second) \<and>
   w_data (snd (try_channel vct_two state_second)) = 548 \<and>
   w_remain (snd (try_channel vct_two state_second)) = 464 \<and>
   s_channel_index (snd (try_channel vct_two (begin_section vct_two
      (end_section vct_two (snd (try_channel vct_two state_second)))))) = 2"
proof -
  have h1: "s_channel_index state_second < length (channels vct_two)"
    by (simp add: state_second_def vct_two_def)
  have h2: "34 \<le> w_remain state_second"
    by (simp add: state_second_def)
  have h3: "w_data state_second + w_remain state_second = length (w_payload state_second)"
    by (simp add: state_second_def)
  have h4: "36 \<le> length (w_payload state_second)"
    by (simp add: state_second_def)
  have ds: "ch_descs (channels vct_two ! Suc 0) = [desc_257, desc_257]"
    by (simp add: vct_two_def channel_big_def)
  have l: "length desc_257 = 257"
    by (simp add: desc_257_def)
  have v: "s_num_channels state_second = 1" "w_remain state_second = 464"
    "w_data state_second = 548" "s_channel_index state_second = 1"
    by (simp_all add: state_second_def)
  obtain kept s' where r: "try_channel vct_two state_second = (kept, s')"
    by (cases "try_channel vct_two state_second") auto
  from serialize_acceptance_rule [OF h1 h2 h3 h4] h1 h2 h3 h4
  show ?thesis
    unfolding Let_def r prod.case v
    by (auto simp: l ds split: if_splits)
qed


section \<open>The channel table: serialization, then deserialization\<close>

lemma high_byte_of_count: "(ucast (drop_bit 8 (ucast (n :: byte) :: 16 word)) :: byte) = 0"
  by (rule bit_word_eqI) (auto simp: bit_simps dest: bit_imp_le_length)

lemma nth_PutUInt16_count:
  "2 \<le> length p \<Longrightarrow> PutUInt16 1 (ucast (n :: byte)) p ! 1 = 0"
  by (cases p; cases "tl p") (auto simp: PutUInt16_def memcpy_def bytes16_def high_byte_of_count)

lemma try_channel_inv:
  assumes "34 \<le> w_remain s" "w_data s + w_remain s = length (w_payload s)" "2 \<le> w_data s"
  shows "w_data (snd (try_channel t s)) + w_remain (snd (try_channel t s))
           = length (w_payload (snd (try_channel t s)))"
    and "2 \<le> w_data (snd (try_channel t s))"
    and "2 \<le> w_remain (snd (try_channel t s))"
    and "length (w_payload (snd (try_channel t s))) = length (w_payload s)"
    and "s_table (snd (try_channel t s)) = s_table s"
    and "s_next_desc (snd (try_channel t s)) = s_next_desc s"
    and "s_section_number (snd (try_channel t s)) = s_section_number s"
proof -
  let ?ds = "ch_descs (channels t ! s_channel_index s)"
  have "length (concat (take (fits ?ds (w_remain s - 32 - 2)) ?ds)) \<le> w_remain s - 32 - 2"
    by (rule fits_size)
  with assms show "w_data (snd (try_channel t s)) + w_remain (snd (try_channel t s))
           = length (w_payload (snd (try_channel t s)))"
    and "2 \<le> w_data (snd (try_channel t s))"
    and "2 \<le> w_remain (snd (try_channel t s))"
    and "length (w_payload (snd (try_channel t s))) = length (w_payload s)"
    and "s_table (snd (try_channel t s)) = s_table s"
    and "s_next_desc (snd (try_channel t s)) = s_next_desc s"
    and "s_section_number (snd (try_channel t s)) = s_section_number s"
    by (auto simp: try_channel_eq Let_def PutUInt16_def)
qed

lemma channels_loop_inv:
  "w_data s + w_remain s = length (w_payload s) \<Longrightarrow> 2 \<le> w_data s \<Longrightarrow> 2 \<le> w_remain s \<Longrightarrow>
   w_data (channels_loop t s) + w_remain (channels_loop t s)
     = length (w_payload (channels_loop t s)) \<and>
   2 \<le> w_data (channels_loop t s) \<and> 2 \<le> w_remain (channels_loop t s) \<and>
   length (w_payload (channels_loop t s)) = length (w_payload s) \<and>
   s_table (channels_loop t s) = s_table s \<and>
   s_next_desc (channels_loop t s) = s_next_desc s \<and>
   s_section_number (channels_loop t s) = s_section_number s"
proof (induction t s rule: channels_loop.induct)
  case (1 t s)
  show ?case
  proof (cases "s_channel_index s < length (channels t) \<and> 34 \<le> w_remain s")
    case False
    then have "channels_loop t s = s"
      by (subst channels_loop.simps) auto
    with "1.prems" show ?thesis by simp
  next
    case True
    then have g: "34 \<le> w_remain s" ..
    note inv = try_channel_inv [OF g "1.prems"(1,2), of t]
    show ?thesis
    proof (cases "fst (try_channel t s)")
      case False
      with True have "channels_loop t s = snd (try_channel t s)"
        by (intro channels_loop_dropped) simp_all
      with inv show ?thesis by simp
    next
      case k: True
      with True have e: "channels_loop t s = channels_loop t (snd (try_channel t s))"
        by (intro channels_loop_kept) simp_all
      from "1.IH" [OF True _ _ k inv(1,2,3), of "try_channel t s"] inv e
      show ?thesis by (simp add: prod_eq_iff)
    qed
  qed
qed

lemma count_byte_zero_last [simp]:
  "count_byte_zero (x\<lparr>sec_lastSectionNumber := y\<rparr>) = count_byte_zero x"
  by (simp add: count_byte_zero_def)

lemma end_section_count_byte:
  assumes inv: "w_data s + w_remain s = length (w_payload s)" "2 \<le> w_data s" "2 \<le> w_remain s"
    and secs: "list_all count_byte_zero (bt_sections (s_table s))"
  shows "list_all count_byte_zero (bt_sections (s_table (end_section t s)))"
proof -
  let ?p = "PutUInt16 1 (ucast (s_num_channels s)) (w_payload s)"
  let ?D = "take (fits (drop (s_next_desc s) (descs t)) (w_remain s - 2))
              (drop (s_next_desc s) (descs t))"
  let ?L = "length (concat ?D)"
  let ?q = "PutUInt16 (w_data s) (of_nat ?L OR push_bit 10 0x003F)
              (put_descs (w_data s + 2) ?D ?p)"
  let ?sect = "take (w_data s + 2 + ?L) ?q"
  have L: "?L \<le> w_remain s - 2" by (rule fits_size)
  from inv have len: "2 \<le> length (w_payload s)" by simp
  have "take 2 ?q = take 2 (put_descs (w_data s + 2) ?D ?p)"
    unfolding PutUInt16_def using inv(2) by (intro take_memcpy_before)
  also have "\<dots> = take 2 ?p"
    using inv(2) by (intro take_put_descs_before) simp
  finally have t2: "take 2 ?q = take 2 ?p" .
  have "?q ! 1 = take 2 ?q ! 1" by simp
  also have "\<dots> = ?p ! 1" unfolding t2 by simp
  also have "\<dots> = 0" using len by (rule nth_PutUInt16_count)
  finally have q1: "?q ! 1 = 0" .
  have lq: "length ?q = length (w_payload s)" by (simp add: PutUInt16_def)
  from q1 lq len have "2 \<le> length ?sect \<and> ?sect ! 1 = 0" by simp
  with secs show ?thesis
    by (simp add: end_section_def lengthSerialize_eq addSection_def Let_def
        BinaryTable_addSection_def list_all_iff count_byte_zero_def)
qed

lemma section_body_start:
  assumes "at_section_start s"
  shows "at_section_start (section_body t s)"
    and "length (w_payload (section_body t s)) = length (w_payload s)"
proof -
  let ?b = "begin_section t s"
  let ?c = "channels_loop t ?b"
  note b = begin_section_facts [of t s]
  from assms have a: "w_data s = 0" "w_remain s = length (w_payload s)"
    "4 \<le> length (w_payload s)" "list_all count_byte_zero (bt_sections (s_table s))"
    by (simp_all add: at_section_start_def)
  have tb: "s_table ?b = s_table s" by (simp add: begin_section_def Let_def)
  from a b have i: "w_data ?b + w_remain ?b = length (w_payload ?b)" "2 \<le> w_data ?b"
    "2 \<le> w_remain ?b" by simp_all
  note c = channels_loop_inv [OF i, of t]
  from c have ci: "w_data ?c + w_remain ?c = length (w_payload ?c)" "2 \<le> w_data ?c"
    "2 \<le> w_remain ?c" by simp_all
  from c tb a(4) have cs: "list_all count_byte_zero (bt_sections (s_table ?c))" by simp
  note e = end_section_facts [OF ci(3), of t]
  from end_section_count_byte [OF ci cs, of t] e ci c b a
  show "at_section_start (section_body t s)"
    by (simp add: at_section_start_def section_body_def)
  from e c b show "length (w_payload (section_body t s)) = length (w_payload s)"
    by (simp add: section_body_def)
qed

lemma sections_loop_start_imp:
  assumes "sections_loop t s = Some y"
  shows "at_section_start s \<longrightarrow> at_section_start y"
proof (rule sections_loop.raw_induct
    [where P = "\<lambda>t s y. at_section_start s \<longrightarrow> at_section_start y", OF _ assms])
  fix f :: "AbstractVCT \<Rightarrow> ser \<Rightarrow> ser option" and t s y
  assume IH: "\<And>t s y. f t s = Some y \<Longrightarrow> at_section_start s \<longrightarrow> at_section_start y"
    and eq: "(if s_section_number s = 0 \<or> s_channel_index s < length (channels t)
                 \<or> s_next_desc s < length (descs t)
              then f t (section_body t s) else Some s) = Some y"
  show "at_section_start s \<longrightarrow> at_section_start y"
  proof
    assume st: "at_section_start s"
    show "at_section_start y"
    proof (cases "s_section_number s = 0 \<or> s_channel_index s < length (channels t)
           \<or> s_next_desc s < length (descs t)")
      case True
      with eq have "f t (section_body t s) = Some y" by simp
      from IH [OF this] section_body_start(1) [OF st, of t] show ?thesis by simp
    next
      case False
      with eq st show ?thesis by simp
    qed
  qed
qed

lemma sections_loop_start:
  "sections_loop t s = Some y \<Longrightarrow> at_section_start s \<Longrightarrow> at_section_start y"
  using sections_loop_start_imp [of t s y] by blast

lemma read_channels_none: "read_channels tid 0 data chs = (chs, 0, data)"
  by (simp add: read_channels.simps)

lemma deserialize_section_no_channel:
  "count_byte_zero sect \<Longrightarrow> channels (snd (deserialize_section t sect)) = channels t"
  by (simp add: deserialize_section_def count_byte_zero_def Let_def read_channels_none)

lemma deserialize_sections_no_channel:
  "list_all count_byte_zero secs \<Longrightarrow> channels (deserialize_sections t secs) = channels t"
proof (induction secs arbitrary: t)
  case Nil
  then show ?case by simp
next
  case (Cons x secs)
  obtain ok t' where r: "deserialize_section t x = (ok, t')"
    by (cases "deserialize_section t x") auto
  from Cons.prems have x: "count_byte_zero x" and rest: "list_all count_byte_zero secs"
    by simp_all
  from deserialize_section_no_channel [OF x, of t] r have c: "channels t' = channels t" by simp
  from Cons.IH [OF rest, of t'] c r show ?case by simp
qed

text \<open>
  Every section that \<open>serialize\<close> builds has 0 in the byte of the channel count, so
  deserializing what it returns finds no channel.
\<close>

lemma deserialize_serialized_channels:
  assumes "serialize payload0 t = Some table" "4 \<le> length payload0"
  shows "channels (deserialize r table) = []"
proof (cases "is_valid t")
  case False
  with assms(1) have "table = BinaryTable_clear" by (simp add: serialize_def)
  then show ?thesis by (simp add: deserialize_def BinaryTable_clear_def Let_def)
next
  case True
  let ?s0 = "\<lparr>w_payload = payload0, w_data = 0, w_remain = length payload0,
                 s_channel_index = 0, s_next_desc = 0, s_num_channels = 0,
                 s_section_number = 0, s_table = BinaryTable_clear\<rparr>"
  from True assms(1) obtain y where y: "sections_loop t ?s0 = Some y" "table = s_table y"
    by (auto simp: serialize_def)
  from assms(2) have "at_section_start ?s0"
    by (simp add: at_section_start_def BinaryTable_clear_def)
  from sections_loop_start [OF y(1) this] y(2)
  have "list_all count_byte_zero (bt_sections table)"
    by (simp add: at_section_start_def)
  from deserialize_sections_no_channel [OF this] show ?thesis
    by (simp add: deserialize_def Let_def)
qed

text \<open>
  The loop on sections ends when the array has 36 bytes at least and every global
  descriptor fits in a section behind the 4 bytes of the fixed fields and the length:
  each turn takes a channel or a global descriptor, or is the first.
\<close>

lemma channels_loop_index:
  "s_channel_index s \<le> s_channel_index (channels_loop t s)"
proof (induction t s rule: channels_loop.induct)
  case (1 t s)
  show ?case
  proof (cases "s_channel_index s < length (channels t) \<and> 34 \<le> w_remain s")
    case False
    then have "channels_loop t s = s"
      by (subst channels_loop.simps) auto
    then show ?thesis by simp
  next
    case True
    show ?thesis
    proof (cases "fst (try_channel t s)")
      case False
      with True have "channels_loop t s = snd (try_channel t s)"
        by (intro channels_loop_dropped) simp_all
      then show ?thesis by (simp add: try_channel_eq Let_def)
    next
      case k: True
      with True have e: "channels_loop t s = channels_loop t (snd (try_channel t s))"
        by (intro channels_loop_kept) simp_all
      have "s_channel_index s \<le> s_channel_index (snd (try_channel t s))"
        by (simp add: try_channel_eq Let_def)
      also from "1.IH" [OF True _ _ k, of "try_channel t s"]
      have "\<dots> \<le> s_channel_index (channels_loop t (snd (try_channel t s)))"
        by (simp add: prod_eq_iff)
      finally show ?thesis unfolding e .
    qed
  qed
qed

lemma channels_loop_first:
  assumes "s_channel_index s < length (channels t)" "34 \<le> w_remain s" "s_num_channels s = 0"
  shows "s_channel_index s < s_channel_index (channels_loop t s)"
proof -
  note f = try_channel_first [OF assms(3), of t]
  from assms(1,2) f(1) have "channels_loop t s = channels_loop t (snd (try_channel t s))"
    by (rule channels_loop_kept)
  with channels_loop_index [of "snd (try_channel t s)" t] f(2) show ?thesis by simp
qed

lemma channels_loop_done:
  "length (channels t) \<le> s_channel_index s \<Longrightarrow> channels_loop t s = s"
  by (subst channels_loop.simps) auto

lemma fits_first: "ds \<noteq> [] \<Longrightarrow> length (hd ds) \<le> r \<Longrightarrow> 0 < fits ds r"
  by (cases ds) auto

lemma end_section_indexes:
  "s_next_desc (end_section t s)
     = s_next_desc s + fits (drop (s_next_desc s) (descs t)) (w_remain s - 2)"
  "s_section_number (end_section t s) = Suc (s_section_number s)"
  by (simp_all add: end_section_def lengthSerialize_eq addSection_def Let_def)

lemma section_body_progress:
  assumes st: "at_section_start s"
    and cap: "36 \<le> length (w_payload s)"
    and fit: "list_all (\<lambda>d. length d + 4 \<le> length (w_payload s)) (descs t)"
    and cond: "s_section_number s = 0 \<or> s_channel_index s < length (channels t)
               \<or> s_next_desc s < length (descs t)"
  shows "turns_left t (section_body t s) < turns_left t s"
proof -
  let ?b = "begin_section t s"
  let ?c = "channels_loop t ?b"
  let ?e = "section_body t s"
  from st have a: "w_data s = 0" "w_remain s = length (w_payload s)"
    by (simp_all add: at_section_start_def)
  note b = begin_section_facts [of t s]
  have b': "s_next_desc ?b = s_next_desc s" "s_section_number ?b = s_section_number s"
    by (simp_all add: begin_section_def Let_def)
  from a b cap have i: "w_data ?b + w_remain ?b = length (w_payload ?b)" "2 \<le> w_data ?b"
    "2 \<le> w_remain ?b" by simp_all
  note c = channels_loop_inv [OF i, of t]
  from c have r2: "2 \<le> w_remain ?c" by simp
  have e1: "s_channel_index ?e = s_channel_index ?c"
    using end_section_facts(1) [OF r2, of t] by (simp add: section_body_def)
  have e2: "s_next_desc ?e
      = s_next_desc s + fits (drop (s_next_desc s) (descs t)) (w_remain ?c - 2)"
    using end_section_indexes(1) [of t ?c] c b' by (simp add: section_body_def)
  have e3: "s_section_number ?e \<noteq> 0"
    using end_section_indexes(2) [of t ?c] by (simp add: section_body_def)
  have mono: "s_channel_index s \<le> s_channel_index ?e"
    using channels_loop_index [of ?b t] b(1) e1 by simp
  have mono2: "s_next_desc s \<le> s_next_desc ?e"
    using e2 by simp
  show ?thesis
  proof (cases "s_channel_index s < length (channels t)")
    case True
    from True b a cap have "s_channel_index ?b < s_channel_index ?c"
      by (intro channels_loop_first) simp_all
    with b(1) e1 have "s_channel_index s < s_channel_index ?e" by simp
    with True mono2 e3 show ?thesis
      by (simp add: turns_left_def)
  next
    case False
    with b(1) have "channels_loop t ?b = ?b"
      by (intro channels_loop_done) simp
    with b a have rc: "w_remain ?c = length (w_payload s) - 2" by simp
    show ?thesis
    proof (cases "s_next_desc s < length (descs t)")
      case True
      then have ne: "drop (s_next_desc s) (descs t) \<noteq> []" by simp
      from True have "hd (drop (s_next_desc s) (descs t)) = descs t ! s_next_desc s"
        by (simp add: hd_drop_conv_nth)
      moreover from True fit have "length (descs t ! s_next_desc s) + 4 \<le> length (w_payload s)"
        by (simp add: list_all_length)
      ultimately have "length (hd (drop (s_next_desc s) (descs t))) \<le> w_remain ?c - 2"
        using rc by simp
      from fits_first [OF ne this] e2 have "s_next_desc s < s_next_desc ?e" by simp
      with True mono e3 show ?thesis
        by (simp add: turns_left_def)
    next
      case nd: False
      with False cond have "s_section_number s = 0" by simp
      with False nd mono mono2 e3 show ?thesis
        by (simp add: turns_left_def)
    qed
  qed
qed

lemma sections_loop_returns:
  assumes "at_section_start s" "36 \<le> length (w_payload s)"
    "list_all (\<lambda>d. length d + 4 \<le> length (w_payload s)) (descs t)"
  shows "\<exists>y. sections_loop t s = Some y"
  using assms
proof (induction "turns_left t s" arbitrary: s rule: less_induct)
  case less
  show ?case
  proof (cases "s_section_number s = 0 \<or> s_channel_index s < length (channels t)
         \<or> s_next_desc s < length (descs t)")
    case False
    then show ?thesis by (subst sections_loop.simps) simp
  next
    case True
    note p = section_body_progress [OF less.prems True]
    note l = section_body_start [OF less.prems(1), of t]
    from less.hyps [OF p l(1)] less.prems(2,3) l(2)
    have "\<exists>y. sections_loop t (section_body t s) = Some y" by simp
    with True show ?thesis by (subst sections_loop.simps) simp
  qed
qed

lemma serialize_returns:
  assumes "36 \<le> length payload0"
    "list_all (\<lambda>d. length d + 4 \<le> length payload0) (descs t)"
  shows "\<exists>table. serialize payload0 t = Some table"
proof (cases "is_valid t")
  case False
  then show ?thesis by (simp add: serialize_def)
next
  case True
  let ?s0 = "\<lparr>w_payload = payload0, w_data = 0, w_remain = length payload0,
                 s_channel_index = 0, s_next_desc = 0, s_num_channels = 0,
                 s_section_number = 0, s_table = BinaryTable_clear\<rparr>"
  from assms(1) have "at_section_start ?s0"
    by (simp add: at_section_start_def BinaryTable_clear_def)
  from sections_loop_returns [OF this, of t] assms obtain y
    where "sections_loop t ?s0 = Some y" by auto
  with True show ?thesis by (simp add: serialize_def)
qed

text \<open>
  C1. For every table, in an array of at least 36 bytes that holds each global
  descriptor: \<open>serialize\<close> returns a binary table, and deserializing it gives a table
  with no channel at all. The channel count is stored as 16 bits at offset 1, so its
  high byte, 0, lands where \<open>deserialize\<close> reads the count, and its low byte on the
  first byte of the first channel.
\<close>

theorem serialize_deserialize_no_channel:
  assumes "36 \<le> length payload0"
    and "list_all (\<lambda>d. length d + 4 \<le> length payload0) (descs t)"
  shows "\<exists>table. serialize payload0 t = Some table \<and> channels (deserialize r table) = []"
proof -
  from serialize_returns [OF assms] obtain table
    where t: "serialize payload0 t = Some table" by blast
  from assms(1) have "4 \<le> length payload0" by simp
  from deserialize_serialized_channels [OF t this] t show ?thesis by blast
qed

text \<open>
  The table of two channels in an array of 1012 bytes: the second channel does not fit
  behind the first, so the serialization has two sections.
\<close>

lemma length_desc_257: "length desc_257 = 257"
  by (simp add: desc_257_def)

lemma serialize_vct_two:
  "\<exists>table. serialize (replicate 1012 0) vct_two = Some table \<and> length (bt_sections table) = 2"
  by (simp add: serialize_def vct_two_def vct_empty_def channel_big_def sections_loop.simps
      section_body_def begin_section_def end_section_def addSection_def channels_loop.simps
      try_channel_eq lengthSerialize_eq Let_def length_desc_257 BinaryTable_addSection_def
      BinaryTable_clear_def PutUInt8_def PutUInt16_def)

theorem serialize_deserialize_no_channel_witness:
  "36 \<le> length (replicate 1012 (0 :: byte)) \<and>
   list_all (\<lambda>d. length d + 4 \<le> length (replicate 1012 (0 :: byte))) (descs vct_two) \<and>
   (\<exists>table. serialize (replicate 1012 0) vct_two = Some table \<and>
      length (bt_sections table) = 2 \<and>
      channels (deserialize vct_empty table) = [] \<and>
      length (channels vct_two) = 2)"
proof -
  have h1: "36 \<le> length (replicate 1012 (0 :: byte))" by simp
  have h2: "list_all (\<lambda>d. length d + 4 \<le> length (replicate 1012 (0 :: byte))) (descs vct_two)"
    by (simp add: vct_two_def vct_empty_def)
  from serialize_deserialize_no_channel [OF h1 h2, of vct_empty] obtain table
    where t: "serialize (replicate 1012 0) vct_two = Some table"
      and c: "channels (deserialize vct_empty table) = []"
    by blast
  from serialize_vct_two t have n: "length (bt_sections table) = 2" by auto
  from h1 h2 t c n show ?thesis by (auto simp: vct_two_def)
qed

end
